theory Spec2Isabelle
  imports
    Complex_Main
    "HOL-Library.Char_ord"
    "HOL-Library.List_Lexorder"
    "HOL-Library.Multiset"
begin

section \<open>Tokenizer (src/sparse.py)\<close>

text \<open>
  \<^verbatim>\<open>tokenize(text) = re.findall(r"[a-z0-9](?:[a-z0-9-]*[a-z0-9])?", text.lower())\<close>

  A text is a list of characters with code points below 256. On these, \<^verbatim>\<open>str.lower\<close>
  maps \<^verbatim>\<open>A-Z\<close> to \<^verbatim>\<open>a-z\<close>; it also maps some Latin-1 letters to other Latin-1 letters,
  but none of them into or out of the classes of the pattern, so the model leaves them
  alone.
\<close>

definition lower_char :: "char \<Rightarrow> char" where
  "lower_char c =
     (let n = (of_char c :: nat)
      in if 65 \<le> n \<and> n \<le> 90 then char_of (n + 32) else c)"

definition lower :: "string \<Rightarrow> string" where
  "lower text = map lower_char text"

text \<open>The character class \<^verbatim>\<open>[a-z0-9]\<close>.\<close>

definition alnum :: "char \<Rightarrow> bool" where
  "alnum c =
     (let n = (of_char c :: nat)
      in (97 \<le> n \<and> n \<le> 122) \<or> (48 \<le> n \<and> n \<le> 57))"

text \<open>The character class \<^verbatim>\<open>[a-z0-9-]\<close>.\<close>

definition tokch :: "char \<Rightarrow> bool" where
  "tokch c = (alnum c \<or> c = CHR ''-'')"

subsection \<open>Backtracking regular expressions\<close>

text \<open>
  The fragment of Python's \<^verbatim>\<open>re\<close> that the pattern uses: a character class,
  concatenation, the greedy star and the greedy option. \<open>rmatch r s\<close> lists the
  lengths of the prefixes of \<open>s\<close> that \<open>r\<close> matches, in the order in which the
  backtracking matcher tries them; the match it reports is the first.
\<close>

datatype regex =
    Cls "char \<Rightarrow> bool"
  | Cat regex regex
  | Star regex
  | Opt regex

function rmatch :: "regex \<Rightarrow> string \<Rightarrow> nat list" where
  "rmatch (Cls p) s = (case s of [] \<Rightarrow> [] | c # _ \<Rightarrow> if p c then [1] else [])"
| "rmatch (Cat a b) s =
     concat (map (\<lambda>n. map (\<lambda>m. n + m) (rmatch b (drop n s))) (rmatch a s))"
| "rmatch (Star a) s =
     concat (map (\<lambda>n. if 0 < n \<and> n \<le> length s
                       then map (\<lambda>m. n + m) (rmatch (Star a) (drop n s))
                       else [])
                 (rmatch a s)) @ [0]"
| "rmatch (Opt a) s = rmatch a s @ [0]"
  by pat_completeness auto
termination
  by (relation "measures [\<lambda>(r, s). size r, \<lambda>(r, s). length s]") auto

text \<open>
  \<^verbatim>\<open>re.findall\<close> for a pattern without groups: scan from the left, report the first
  match at the leftmost position that has one, go on after it. A position with no
  match is skipped. (After an empty match the scan moves on by one character; the
  pattern of \<open>tokenize\<close> never matches the empty string.)
\<close>

function findall :: "regex \<Rightarrow> string \<Rightarrow> string list" where
  "findall r [] = (case rmatch r [] of [] \<Rightarrow> [] | n # _ \<Rightarrow> [[]])"
| "findall r (c # cs) =
     (case rmatch r (c # cs) of
        [] \<Rightarrow> findall r cs
      | n # _ \<Rightarrow> take n (c # cs) # findall r (drop (max 1 n) (c # cs)))"
  by pat_completeness auto
termination
  by (relation "measure (\<lambda>(r, s). length s)") auto

definition token_re :: regex where
  "token_re = Cat (Cls alnum) (Opt (Cat (Star (Cls tokch)) (Cls alnum)))"

definition tokenize :: "string \<Rightarrow> string list" where
  "tokenize text = findall token_re (lower text)"

subsection \<open>The tokenizer as the specification words it\<close>

text \<open>
  The specification: lowercase the input, then extract the maximal runs of
  alphanumeric characters that may contain internal (non-leading, non-trailing)
  hyphens. \<open>rstrip run\<close> removes what follows the last alphanumeric character of a
  run. \<open>spec_tokens\<close> is the scanner these words describe: a token starts at an
  alphanumeric character, runs over every following alphanumeric character or
  hyphen, and gives back its trailing hyphens.
\<close>

definition rstrip :: "string \<Rightarrow> string" where
  "rstrip run = rev (dropWhile (\<lambda>c. \<not> alnum c) (rev run))"

function spec_tokens :: "string \<Rightarrow> string list" where
  "spec_tokens [] = []"
| "spec_tokens (c # cs) =
     (if alnum c
      then rstrip (takeWhile tokch (c # cs))
             # spec_tokens (drop (length (rstrip (takeWhile tokch (c # cs)))) (c # cs))
      else spec_tokens cs)"
  by pat_completeness auto
termination
proof (relation "measure length")
  fix c :: char and cs :: string
  assume a: "alnum c"
  have "rstrip (takeWhile tokch (c # cs)) \<noteq> []"
    using a by (simp add: rstrip_def tokch_def dropWhile_append)
  then show "(drop (length (rstrip (takeWhile tokch (c # cs)))) (c # cs), c # cs)
               \<in> measure length"
    by (cases "rstrip (takeWhile tokch (c # cs))") simp_all
qed simp_all

text \<open>
  The same as a relation between a text and its tokens, with no scanning order:
  the text is a gap, a token, a gap, ..., a token, a gap, where
  \<^item> a token is not empty, starts and ends with an alphanumeric character and has
    only alphanumeric characters and hyphens in between;
  \<^item> a gap has no alphanumeric character;
  \<^item> a token cannot be extended: the hyphens after it are not followed by an
    alphanumeric character.
\<close>

definition valid_token :: "string \<Rightarrow> bool" where
  "valid_token t = (t \<noteq> [] \<and> alnum (hd t) \<and> alnum (last t) \<and> list_all tokch t)"

fun token_split :: "string \<Rightarrow> string list \<Rightarrow> bool" where
  "token_split s [] = list_all (\<lambda>c. \<not> alnum c) s"
| "token_split s (t # ts) =
     (\<exists>gap rest. s = gap @ t @ rest
        \<and> list_all (\<lambda>c. \<not> alnum c) gap
        \<and> valid_token t
        \<and> list_all (\<lambda>c. c = CHR ''-'') (takeWhile tokch rest)
        \<and> token_split rest ts)"

text \<open>
  What the matcher tries after the first character of a token: for each length
  \<open>n\<close> of the star, longest first, one more alphanumeric character.
\<close>

definition tail_tries :: "string \<Rightarrow> nat \<Rightarrow> nat list" where
  "tail_tries s k =
     concat (map (\<lambda>n. map (\<lambda>m. n + m) (rmatch (Cls alnum) (drop n s))) (rev [0..<Suc k]))"

section \<open>Values, errors and documents\<close>

text \<open>
  Exceptions are values. \<open>PortError\<close> stands for any exception that the embedding
  service or the vector store raises; the others are raised by the interpreter.
\<close>

datatype error = TypeError | ZeroDivisionError | KeyError | PortError string

text \<open>
  The values a filter can name as a target: JSON scalars and lists. (Floating-point
  targets are left out.)
\<close>

datatype pyval = PNone | PBool bool | PInt int | PStr string | PList "pyval list"

text \<open>
  The values of a flattened metadata record: \<open>MNone\<close> is what \<^verbatim>\<open>meta.get(field)\<close>
  returns for a key that the record does not have.
\<close>

datatype metaval = MNone | MBool bool | MStr string

text \<open>
  A knowledge-base article, as loaded from the corpus file. The keys that the code
  reads with \<^verbatim>\<open>article.get(key, default)\<close> may be missing. The fields carry the prefix
  \<open>a_\<close> because result records below have fields of the same names.
\<close>

record article =
  a_doc_id :: string
  a_title :: string
  a_body :: string
  a_region :: "string option"
  a_product_version :: "string option"
  a_category :: "string option"
  a_deprecated :: "bool option"
  a_effective_date :: "string option"
  a_error_codes :: "string list option"

section \<open>Filter evaluation (src/retriever.py)\<close>

subsection \<open>Python's comparisons\<close>

text \<open>\<^verbatim>\<open>value == target\<close>: \<^verbatim>\<open>bool\<close> is a subtype of \<^verbatim>\<open>int\<close>, so \<^verbatim>\<open>True == 1\<close>.\<close>

fun py_eq :: "metaval \<Rightarrow> pyval \<Rightarrow> bool" where
  "py_eq MNone PNone = True"
| "py_eq (MBool b) (PBool c) = (b = c)"
| "py_eq (MBool b) (PInt i) = ((if b then 1 else 0) = i)"
| "py_eq (MStr s) (PStr t) = (s = t)"
| "py_eq _ _ = False"

text \<open>
  \<^verbatim>\<open>value < target\<close> and its kin: numbers with numbers, strings with strings (by code
  point, lexicographically); every other pairing raises \<^verbatim>\<open>TypeError\<close>.
\<close>

datatype ordering = LT | EQ | GT

definition compare_lin :: "'a::linorder \<Rightarrow> 'a \<Rightarrow> ordering" where
  "compare_lin a b = (if a < b then LT else if a = b then EQ else GT)"

fun py_compare :: "metaval \<Rightarrow> pyval \<Rightarrow> error + ordering" where
  "py_compare (MBool b) (PBool c) =
     Inr (compare_lin (if b then 1 else 0 :: int) (if c then 1 else 0))"
| "py_compare (MBool b) (PInt i) = Inr (compare_lin (if b then 1 else 0) i)"
| "py_compare (MStr s) (PStr t) = Inr (compare_lin s t)"
| "py_compare _ _ = Inl TypeError"

definition py_gt :: "metaval \<Rightarrow> pyval \<Rightarrow> error + bool" where
  "py_gt v t = map_sum id (\<lambda>c. c = GT) (py_compare v t)"

definition py_ge :: "metaval \<Rightarrow> pyval \<Rightarrow> error + bool" where
  "py_ge v t = map_sum id (\<lambda>c. c \<noteq> LT) (py_compare v t)"

definition py_lt :: "metaval \<Rightarrow> pyval \<Rightarrow> error + bool" where
  "py_lt v t = map_sum id (\<lambda>c. c = LT) (py_compare v t)"

definition py_le :: "metaval \<Rightarrow> pyval \<Rightarrow> error + bool" where
  "py_le v t = map_sum id (\<lambda>c. c \<noteq> GT) (py_compare v t)"

text \<open>
  \<^verbatim>\<open>value in target\<close>: membership by \<^verbatim>\<open>==\<close> in a list; substring test in a string,
  which wants a string on the left; \<^verbatim>\<open>TypeError\<close> for a target that is not a
  container.
\<close>

fun str_contains :: "string \<Rightarrow> string \<Rightarrow> bool" where
  "str_contains needle [] = (needle = [])"
| "str_contains needle (c # cs) =
     (take (length needle) (c # cs) = needle \<or> str_contains needle cs)"

fun py_in :: "metaval \<Rightarrow> pyval \<Rightarrow> error + bool" where
  "py_in v (PList xs) = Inr (list_ex (py_eq v) xs)"
| "py_in (MStr s) (PStr t) = Inr (str_contains s t)"
| "py_in _ _ = Inl TypeError"

subsection \<open>Where clauses\<close>

text \<open>
  A where clause is a dictionary. What the evaluator looks at: the entry under
  \<^verbatim>\<open>"$and"\<close> if there is one (a list of clauses), the entry under \<^verbatim>\<open>"$or"\<close> if there is
  one (a list of clauses), and the other entries in insertion order, each a field
  name with its constraint: a dictionary from operators to targets, or a bare value.
\<close>

datatype constraint = Ops "(string \<times> pyval) list" | Plain pyval

datatype condition =
  Cond (and_entry: "condition list option")
       (or_entry: "condition list option")
       (field_entries: "(string \<times> constraint) list")

text \<open>Python's truth value of \<^verbatim>\<open>where: dict | None\<close>: false for \<^verbatim>\<open>None\<close> and for \<^verbatim>\<open>{}\<close>.\<close>

definition empty_dict :: condition where
  "empty_dict = Cond None None []"

fun truthy :: "condition option \<Rightarrow> bool" where
  "truthy None = False"
| "truthy (Some c) = (c \<noteq> empty_dict)"

type_synonym meta = "(string \<times> metaval) list"

definition meta_get :: "meta \<Rightarrow> string \<Rightarrow> metaval" where
  "meta_get m field = (case map_of m field of None \<Rightarrow> MNone | Some v \<Rightarrow> v)"

text \<open>
  One pass of the loop over \<^verbatim>\<open>constraint.items()\<close>: \<open>Inr False\<close> is the
  \<^verbatim>\<open>return False\<close>, \<open>Inr True\<close> goes on with the next operator. No branch of the
  source fires for an operator outside the eight, so the loop goes on.
\<close>

definition eval_op :: "metaval \<Rightarrow> string \<Rightarrow> pyval \<Rightarrow> error + bool" where
  "eval_op v op target =
     (if op = ''$eq'' then Inr (py_eq v target)
      else if op = ''$ne'' then Inr (\<not> py_eq v target)
      else if op = ''$gt'' then (if v = MNone then Inr False else py_gt v target)
      else if op = ''$gte'' then (if v = MNone then Inr False else py_ge v target)
      else if op = ''$lt'' then (if v = MNone then Inr False else py_lt v target)
      else if op = ''$lte'' then (if v = MNone then Inr False else py_le v target)
      else if op = ''$in'' then py_in v target
      else if op = ''$nin'' then map_sum id Not (py_in v target)
      else Inr True)"

fun eval_ops :: "metaval \<Rightarrow> (string \<times> pyval) list \<Rightarrow> error + bool" where
  "eval_ops v [] = Inr True"
| "eval_ops v ((op, target) # rest) =
     (case eval_op v op target of
        Inl e \<Rightarrow> Inl e
      | Inr False \<Rightarrow> Inr False
      | Inr True \<Rightarrow> eval_ops v rest)"

fun eval_fields :: "meta \<Rightarrow> (string \<times> constraint) list \<Rightarrow> error + bool" where
  "eval_fields m [] = Inr True"
| "eval_fields m ((field, Ops ops) # rest) =
     (case eval_ops (meta_get m field) ops of
        Inl e \<Rightarrow> Inl e
      | Inr False \<Rightarrow> Inr False
      | Inr True \<Rightarrow> eval_fields m rest)"
| "eval_fields m ((field, Plain target) # rest) =
     (if \<not> py_eq (meta_get m field) target then Inr False else eval_fields m rest)"

text \<open>
  \<^verbatim>\<open>all(... for c in condition["$and"])\<close> and \<^verbatim>\<open>any(...)\<close> stop at the first child that
  decides; an exception in a child that is reached propagates.
\<close>

fun evaluate_condition :: "meta \<Rightarrow> condition \<Rightarrow> error + bool"
  and eval_all :: "meta \<Rightarrow> condition list \<Rightarrow> error + bool"
  and eval_any :: "meta \<Rightarrow> condition list \<Rightarrow> error + bool" where
  "evaluate_condition m (Cond (Some cs) _ _) = eval_all m cs"
| "evaluate_condition m (Cond None (Some cs) _) = eval_any m cs"
| "evaluate_condition m (Cond None None fs) = eval_fields m fs"
| "eval_all m [] = Inr True"
| "eval_all m (c # cs) =
     (case evaluate_condition m c of
        Inl e \<Rightarrow> Inl e
      | Inr False \<Rightarrow> Inr False
      | Inr True \<Rightarrow> eval_all m cs)"
| "eval_any m [] = Inr False"
| "eval_any m (c # cs) =
     (case evaluate_condition m c of
        Inl e \<Rightarrow> Inl e
      | Inr True \<Rightarrow> Inr True
      | Inr False \<Rightarrow> eval_any m cs)"

subsection \<open>Post-hoc filtering of sparse results\<close>

text \<open>
  A ranked item is the dictionary \<^verbatim>\<open>{"doc_id", "score", "rank"}\<close> that the sparse index
  returns; the standard result format adds the display fields. Scores are real
  numbers: the rounding of floating-point arithmetic is not modelled.
\<close>

record ranked_item =
  doc_id :: string
  score :: real
  rank :: int

record result = ranked_item +
  title :: string
  body :: string
  region :: string
  product_version :: string
  category :: string
  deprecated :: bool

text \<open>\<^verbatim>\<open>sep.join(parts)\<close>.\<close>

fun join :: "string \<Rightarrow> string list \<Rightarrow> string" where
  "join sep [] = []"
| "join sep [x] = x"
| "join sep (x # y # ys) = x @ sep @ join sep (y # ys)"

definition get_or :: "'a \<Rightarrow> 'a option \<Rightarrow> 'a" where
  "get_or d v = (case v of None \<Rightarrow> d | Some x \<Rightarrow> x)"

text \<open>The flattened metadata record that \<open>apply_filters\<close> builds for an article.\<close>

definition flatten_meta :: "article \<Rightarrow> meta" where
  "flatten_meta a =
     [(''region'', MStr (get_or '''' (a_region a))),
      (''product_version'', MStr (get_or '''' (a_product_version a))),
      (''category'', MStr (get_or '''' (a_category a))),
      (''deprecated'', MBool (get_or False (a_deprecated a))),
      (''effective_date'', MStr (get_or '''' (a_effective_date a))),
      (''error_codes_str'', MStr (join '','' (get_or [] (a_error_codes a))))]"

text \<open>
  The loop of \<open>apply_filters\<close>: an item without an article is skipped, an exception
  of the evaluator ends the loop.
\<close>

fun filter_loop ::
  "condition \<Rightarrow> (string \<rightharpoonup> article) \<Rightarrow> ('a ranked_item_scheme) list
     \<Rightarrow> error + ('a ranked_item_scheme) list" where
  "filter_loop w articles_by_id [] = Inr []"
| "filter_loop w articles_by_id (r # rs) =
     (case articles_by_id (doc_id r) of
        None \<Rightarrow> filter_loop w articles_by_id rs
      | Some a \<Rightarrow>
          (case evaluate_condition (flatten_meta a) w of
             Inl e \<Rightarrow> Inl e
           | Inr keep \<Rightarrow>
               (case filter_loop w articles_by_id rs of
                  Inl e \<Rightarrow> Inl e
                | Inr filtered \<Rightarrow> Inr (if keep then r # filtered else filtered))))"

definition apply_filters ::
  "('a ranked_item_scheme) list \<Rightarrow> condition \<Rightarrow> (string \<rightharpoonup> article)
     \<Rightarrow> error + ('a ranked_item_scheme) list" where
  "apply_filters results w articles_by_id =
     (if w = empty_dict then Inr results else filter_loop w articles_by_id results)"

section \<open>Sparse index (src/sparse.py)\<close>

text \<open>
  \<^verbatim>\<open>sorted(xs, key=f, reverse=True)\<close>. The sort is stable, also when reversed: the
  interpreter reverses the list, sorts it stably in ascending order and reverses the
  outcome, which is what the definition does with the library's stable sort.
\<close>

definition sorted_reverse :: "('a \<Rightarrow> 'k::linorder) \<Rightarrow> 'a list \<Rightarrow> 'a list" where
  "sorted_reverse f xs = rev (sort_key f (rev xs))"

text \<open>
  The slice \<^verbatim>\<open>xs[:k]\<close>: the first \<open>k\<close> elements, and for a negative \<open>k\<close> all but the
  last \<open>-k\<close>.
\<close>

definition slice_to :: "int \<Rightarrow> 'a list \<Rightarrow> 'a list" where
  "slice_to k xs =
     (if 0 \<le> k then take (nat k) xs else take (nat (int (length xs) + k)) xs)"

text \<open>\<^verbatim>\<open>enumerate(xs, start=n)\<close>.\<close>

fun enumerate_from :: "int \<Rightarrow> 'a list \<Rightarrow> (int \<times> 'a) list" where
  "enumerate_from n [] = []"
| "enumerate_from n (x # xs) = (n, x) # enumerate_from (n + 1) xs"

text \<open>
  The index: the document identifiers and the documents in corpus order, and the
  scorer built over the tokenized corpus.
\<close>

record bm25_index =
  doc_ids :: "string list"
  documents :: "article list"
  corpus :: "string list list"
  idf :: "string \<Rightarrow> real"

text \<open>
  Modelled from the spec: the scorer \<^verbatim>\<open>BM25Okapi\<close> of the package \<^verbatim>\<open>rank_bm25\<close>,
  which the sources import and do not contain. Section 4.2: with \<open>k1 = 1.5\<close> and
  \<open>b = 0.75\<close>, a query term contributes
  \<open>idf(term) * (tf * (k1 + 1)) / (tf + k1 * (1 - b + b * docLen / avgDocLen))\<close> to the
  score of a document, summed over the terms of the tokenized query (a term that is
  not in the document has \<open>tf = 0\<close> and contributes nothing). The table of inverse
  document frequencies is a parameter, since the specification does not give it.
\<close>

definition avgdl :: "string list list \<Rightarrow> real" where
  "avgdl docs = real (sum_list (map length docs)) / real (length docs)"

definition term_score :: "bm25_index \<Rightarrow> string list \<Rightarrow> string \<Rightarrow> real" where
  "term_score ix doc q =
     (let tf = real (count_list doc q)
      in idf ix q * (tf * (1.5 + 1))
           / (tf + 1.5 * (1 - 0.75 + 0.75 * real (length doc) / avgdl (corpus ix))))"

definition get_scores :: "bm25_index \<Rightarrow> string list \<Rightarrow> real list" where
  "get_scores ix query =
     map (\<lambda>doc. foldl (\<lambda>s q. s + term_score ix doc q) 0 query) (corpus ix)"

text \<open>\<^verbatim>\<open>BM25Index.__init__\<close>; \<open>idf_of\<close> is the scorer's table for a tokenized corpus.\<close>

definition BM25Index :: "(string list list \<Rightarrow> string \<Rightarrow> real) \<Rightarrow> article list \<Rightarrow> bm25_index" where
  "BM25Index idf_of docs =
     (let toks = map (\<lambda>doc. tokenize (a_title doc @ '' '' @ a_body doc)) docs
      in \<lparr>doc_ids = map a_doc_id docs, documents = docs, corpus = toks, idf = idf_of toks\<rparr>)"

text \<open>\<^verbatim>\<open>BM25Index.search\<close>.\<close>

definition scored :: "bm25_index \<Rightarrow> string \<Rightarrow> (string \<times> real) list" where
  "scored ix query = sorted_reverse snd (zip (doc_ids ix) (get_scores ix (tokenize query)))"

definition search :: "bm25_index \<Rightarrow> string \<Rightarrow> int \<Rightarrow> ranked_item list" where
  "search ix query top_k =
     map (\<lambda>(rank, (doc_id, score)). \<lparr>doc_id = doc_id, score = score, rank = rank\<rparr>)
       (enumerate_from 1 (slice_to top_k (scored ix query)))"

section \<open>Reciprocal rank fusion (src/retriever.py)\<close>

text \<open>
  The dictionaries \<^verbatim>\<open>scores\<close> and \<^verbatim>\<open>doc_data\<close> keep their keys in insertion order, and
  the final sort reads the keys in that order: an association list, where storing
  under a key that is present replaces the value in place and a new key goes to the
  end.
\<close>

fun dict_set :: "'k \<Rightarrow> 'v \<Rightarrow> ('k \<times> 'v) list \<Rightarrow> ('k \<times> 'v) list" where
  "dict_set k v [] = [(k, v)]"
| "dict_set k v (p # ps) = (if fst p = k then (k, v) # ps else p # dict_set k v ps)"

definition dict_get_or :: "'v \<Rightarrow> ('k \<times> 'v) list \<Rightarrow> 'k \<Rightarrow> 'v" where
  "dict_get_or d ps k = (case map_of ps k of None \<Rightarrow> d | Some v \<Rightarrow> v)"

text \<open>The default of the parameter \<^verbatim>\<open>k\<close>, and \<^verbatim>\<open>RRF_K\<close> and \<^verbatim>\<open>DEFAULT_TOP_K\<close> of src/config.py.\<close>

definition RRF_K :: int where
  "RRF_K = 60"

definition DEFAULT_TOP_K :: int where
  "DEFAULT_TOP_K = 5"

text \<open>
  The body of the inner loop. \<^verbatim>\<open>doc_data\<close> keeps the first dictionary seen for a
  document without its score and rank; the model keeps the whole item, whose score
  and rank are overwritten when the fused entry is made.
\<close>

fun rrf_step ::
  "int \<Rightarrow> 'a ranked_item_scheme
     \<Rightarrow> (string \<times> real) list \<times> (string \<times> 'a ranked_item_scheme) list
     \<Rightarrow> (string \<times> real) list \<times> (string \<times> 'a ranked_item_scheme) list" where
  "rrf_step k r (scores, doc_data) =
     (dict_set (doc_id r)
        (dict_get_or 0 scores (doc_id r) + 1 / real_of_int (k + rank r)) scores,
      if map_of doc_data (doc_id r) = None
      then dict_set (doc_id r) r doc_data else doc_data)"

text \<open>
  The inner loop, over one result list. The division \<^verbatim>\<open>1.0 / (k + r["rank"])\<close> raises
  when the divisor is zero.
\<close>

fun rrf_results ::
  "int \<Rightarrow> ('a ranked_item_scheme) list
     \<Rightarrow> (string \<times> real) list \<times> (string \<times> 'a ranked_item_scheme) list
     \<Rightarrow> error + (string \<times> real) list \<times> (string \<times> 'a ranked_item_scheme) list" where
  "rrf_results k [] acc = Inr acc"
| "rrf_results k (r # rs) acc =
     (if k + rank r = 0 then Inl ZeroDivisionError
      else rrf_results k rs (rrf_step k r acc))"

text \<open>The outer loop, over the result lists.\<close>

fun rrf_lists ::
  "int \<Rightarrow> ('a ranked_item_scheme) list list
     \<Rightarrow> (string \<times> real) list \<times> (string \<times> 'a ranked_item_scheme) list
     \<Rightarrow> error + (string \<times> real) list \<times> (string \<times> 'a ranked_item_scheme) list" where
  "rrf_lists k [] acc = Inr acc"
| "rrf_lists k (results # rest) acc =
     (case rrf_results k results acc of
        Inl e \<Rightarrow> Inl e
      | Inr acc' \<Rightarrow> rrf_lists k rest acc')"

text \<open>The loop that builds the fused entries; a missing key would raise.\<close>

fun fuse_entries ::
  "(string \<times> real) list \<Rightarrow> (string \<times> 'a ranked_item_scheme) list
     \<Rightarrow> (int \<times> string) list \<Rightarrow> error + ('a ranked_item_scheme) list" where
  "fuse_entries scores doc_data [] = Inr []"
| "fuse_entries scores doc_data ((n, d) # rest) =
     (case map_of doc_data d of
        None \<Rightarrow> Inl KeyError
      | Some r \<Rightarrow>
          (case map_of scores d of
             None \<Rightarrow> Inl KeyError
           | Some s \<Rightarrow>
               (case fuse_entries scores doc_data rest of
                  Inl e \<Rightarrow> Inl e
                | Inr fused \<Rightarrow> Inr (r\<lparr>score := s, rank := n\<rparr> # fused))))"

text \<open>
  \<^verbatim>\<open>sorted(scores, key=lambda d: scores[d], reverse=True)\<close> sorts the keys of the
  dictionary; the key function is applied to keys only, where \<^verbatim>\<open>scores[d]\<close> is the
  stored value.
\<close>

definition reciprocal_rank_fusion ::
  "('a ranked_item_scheme) list list \<Rightarrow> int \<Rightarrow> error + ('a ranked_item_scheme) list" where
  "reciprocal_rank_fusion result_lists k =
     (case rrf_lists k result_lists ([], []) of
        Inl e \<Rightarrow> Inl e
      | Inr (scores, doc_data) \<Rightarrow>
          fuse_entries scores doc_data
            (enumerate_from 1 (sorted_reverse (dict_get_or 0 scores) (map fst scores))))"

text \<open>
  For the statement of the tie-break: the position at which a document first
  appears when the input lists are scanned in the order given.
\<close>

definition first_pos :: "'a \<Rightarrow> 'a list \<Rightarrow> nat" where
  "first_pos d ids = length (takeWhile (\<lambda>x. x \<noteq> d) ids)"

text \<open>
  The score that the specification gives a document: over the input lists, the sum
  of \<open>1 / (k + rank)\<close> for the entries of the document in the list. A list without
  the document contributes the empty sum.
\<close>

definition rrf_score :: "int \<Rightarrow> ('a ranked_item_scheme) list list \<Rightarrow> string \<Rightarrow> real" where
  "rrf_score k result_lists d =
     sum_list (map (\<lambda>results.
        sum_list (map (\<lambda>r. 1 / real_of_int (k + rank r))
                    (filter (\<lambda>r. doc_id r = d) results))) result_lists)"

text \<open>
  The order in which keys enter a dictionary that starts with the keys \<open>keys\<close> and
  then receives the keys \<open>ids\<close> one after the other.
\<close>

definition seen_order :: "'a list \<Rightarrow> 'a list \<Rightarrow> 'a list" where
  "seen_order keys ids = foldl (\<lambda>acc d. if d \<in> set acc then acc else acc @ [d]) keys ids"


section \<open>An example corpus\<close>

definition example_doc_1 :: article where
  "example_doc_1 =
     \<lparr>a_doc_id = ''d1'', a_title = ''Error E-4012'', a_body = ''retry the login'',
      a_region = Some ''EU'', a_product_version = Some ''v2.0'',
      a_category = Some ''authentication'', a_deprecated = Some False,
      a_effective_date = Some ''2024-03-01'', a_error_codes = Some [''E-4012'', ''E-4013'']\<rparr>"

definition example_doc_2 :: article where
  "example_doc_2 =
     \<lparr>a_doc_id = ''d2'', a_title = ''Billing'', a_body = ''retry, then retry again'',
      a_region = Some ''US'', a_product_version = Some ''v1.0'',
      a_category = Some ''billing'', a_deprecated = Some True,
      a_effective_date = Some ''2023-11-15'', a_error_codes = None\<rparr>"
section \<open>Proofs: tokenizer\<close>


declare rmatch.simps(3) [simp del]

lemma rmatch_star_cls_Cons:
  "rmatch (Star (Cls p)) (c # cs) =
     (if p c then map Suc (rmatch (Star (Cls p)) cs) @ [0] else [0])"
  by (subst rmatch.simps(3)) simp

lemma rmatch_star_cls_Nil: "rmatch (Star (Cls p)) [] = [0]"
  by (subst rmatch.simps(3)) simp

lemma rmatch_star_cls:
  "rmatch (Star (Cls p)) s = rev [0..<Suc (length (takeWhile p s))]"
proof (induction s)
  case Nil
  show ?case by (simp add: rmatch_star_cls_Nil)
next
  case (Cons c cs)
  show ?case
  proof (cases "p c")
    case True
    have "rmatch (Star (Cls p)) (c # cs) = map Suc (rmatch (Star (Cls p)) cs) @ [0]"
      using True by (simp add: rmatch_star_cls_Cons)
    also have "\<dots> = map Suc (rev [0..<Suc (length (takeWhile p cs))]) @ [0]"
      by (simp only: Cons.IH)
    also have "\<dots> = rev (0 # map Suc [0..<Suc (length (takeWhile p cs))])"
      by (simp add: rev_map)
    also have "\<dots> = rev [0..<Suc (Suc (length (takeWhile p cs)))]"
      by (simp only: map_Suc_upt) (simp add: upt_conv_Cons del: upt_Suc)
    finally show ?thesis using True by simp
  next
    case False
    then show ?thesis by (simp add: rmatch_star_cls_Cons)
  qed
qed


lemma rstrip_snoc:
  "rstrip (run @ [x]) = (if alnum x then run @ [x] else rstrip run)"
  by (simp add: rstrip_def)

lemma rstrip_Nil: "rstrip [] = []"
  by (simp add: rstrip_def)

lemma rstrip_Cons_alnum: "alnum c \<Longrightarrow> rstrip (c # run) = c # rstrip run"
  by (simp add: rstrip_def dropWhile_append)

lemma rstrip_prefix: "\<exists>ys. run = rstrip run @ ys"
proof -
  have "rev run = takeWhile (\<lambda>c. \<not> alnum c) (rev run) @ dropWhile (\<lambda>c. \<not> alnum c) (rev run)"
    by simp
  then have "run = rev (dropWhile (\<lambda>c. \<not> alnum c) (rev run)) @ rev (takeWhile (\<lambda>c. \<not> alnum c) (rev run))"
    by (metis rev_append rev_rev_ident)
  then show ?thesis unfolding rstrip_def by blast
qed

lemma tail_tries_hd:
  "rest = [] \<or> \<not> alnum (hd rest) \<Longrightarrow>
   hd (tail_tries (run @ rest) (length run) @ [0]) = length (rstrip run)"
proof (induction run arbitrary: rest rule: rev_induct)
  case Nil
  then have "rmatch (Cls alnum) rest = []"
    by (cases rest) auto
  then show ?case by (simp add: tail_tries_def rstrip_Nil)
next
  case (snoc x run)
  have top: "rmatch (Cls alnum) (drop (Suc (length run)) ((run @ [x]) @ rest)) = []"
    using snoc.prems by (cases rest) auto
  have unfold: "tail_tries ((run @ [x]) @ rest) (length (run @ [x]))
          = tail_tries (run @ x # rest) (length run)"
    using top by (simp add: tail_tries_def)
  show ?case
  proof (cases "alnum x")
    case True
    have "tail_tries (run @ x # rest) (length run)
            = Suc (length run) # concat (map (\<lambda>n. map (\<lambda>m. n + m) (rmatch (Cls alnum) (drop n (run @ x # rest)))) (rev [0..<length run]))"
      using True by (simp add: tail_tries_def)
    then show ?thesis using True unfold by (simp add: rstrip_snoc)
  next
    case False
    then have "hd (tail_tries (run @ x # rest) (length run) @ [0]) = length (rstrip run)"
      using snoc.IH[of "x # rest"] by simp
    then show ?thesis using False unfold by (simp add: rstrip_snoc)
  qed
qed

lemma rmatch_token_re_not_alnum:
  "\<not> alnum c \<Longrightarrow> rmatch token_re (c # cs) = []"
  by (simp add: token_re_def)

lemma rmatch_token_re_Nil: "rmatch token_re [] = []"
  by (simp add: token_re_def)

lemma rmatch_token_re_alnum:
  assumes "alnum c"
  shows "\<exists>tl. rmatch token_re (c # cs) = length (rstrip (takeWhile tokch (c # cs))) # tl"
proof -
  let ?run = "takeWhile tokch cs"
  let ?rest = "dropWhile tokch cs"
  have rest: "?rest = [] \<or> \<not> alnum (hd ?rest)"
    using hd_dropWhile[of tokch cs] by (auto simp: tokch_def)
  have "rmatch token_re (c # cs) = map Suc (tail_tries cs (length ?run) @ [0])"
    using assms by (simp add: token_re_def rmatch_star_cls tail_tries_def del: upt_Suc)
  moreover have "hd (tail_tries cs (length ?run) @ [0]) = length (rstrip ?run)"
    using tail_tries_hd[OF rest, of ?run] by simp
  moreover have "rstrip (takeWhile tokch (c # cs)) = c # rstrip ?run"
    using assms by (simp add: tokch_def rstrip_Cons_alnum)
  ultimately show ?thesis
    by (cases "tail_tries cs (length ?run) @ [0]") auto
qed

declare spec_tokens.simps [simp del]
declare findall.simps [simp del]

lemma findall_token_re: "findall token_re s = spec_tokens s"
proof (induction s rule: spec_tokens.induct)
  case 1
  show ?case by (simp add: findall.simps spec_tokens.simps rmatch_token_re_Nil)
next
  case (2 c cs)
  show ?case
  proof (cases "alnum c")
    case False
    then show ?thesis using 2
      by (simp add: findall.simps(2) spec_tokens.simps(2) rmatch_token_re_not_alnum)
  next
    case True
    let ?tok = "rstrip (takeWhile tokch (c # cs))"
    obtain tl where m: "rmatch token_re (c # cs) = length ?tok # tl"
      using rmatch_token_re_alnum[OF True] by blast
    have "?tok = c # rstrip (takeWhile tokch cs)"
      using True by (simp add: tokch_def rstrip_Cons_alnum)
    then have ne: "0 < length ?tok"
      by (simp only: length_Cons)
    obtain ys where "takeWhile tokch (c # cs) = ?tok @ ys"
      using rstrip_prefix by blast
    then have "c # cs = ?tok @ ys @ dropWhile tokch (c # cs)"
      by (metis append.assoc takeWhile_dropWhile_id)
    then have tk: "take (length ?tok) (c # cs) = ?tok"
      by (metis append_eq_conv_conj)
    have "\<And>n::nat. 0 < n \<Longrightarrow> max 1 n = n"
      by simp
    from this[OF ne] have mx: "max 1 (length ?tok) = length ?tok" .
    have "findall token_re (c # cs) = ?tok # findall token_re (drop (length ?tok) (c # cs))"
      by (simp only: findall.simps(2) m list.case mx tk)
    also have "\<dots> = ?tok # spec_tokens (drop (length ?tok) (c # cs))"
      using "2.IH"(1)[OF True] by simp
    also have "\<dots> = spec_tokens (c # cs)"
      using True by (simp only: spec_tokens.simps(2) if_True)
    finally show ?thesis .
  qed
qed


lemma rstrip_decomp:
  "\<exists>ys. run = rstrip run @ ys \<and> list_all (\<lambda>c. \<not> alnum c) ys"
proof -
  let ?P = "\<lambda>c. \<not> alnum c"
  have "rev run = takeWhile ?P (rev run) @ dropWhile ?P (rev run)"
    by simp
  then have "run = rev (dropWhile ?P (rev run)) @ rev (takeWhile ?P (rev run))"
    by (metis rev_append rev_rev_ident)
  moreover have "list_all ?P (rev (takeWhile ?P (rev run)))"
    by (auto simp: list_all_iff dest: set_takeWhileD)
  ultimately show ?thesis unfolding rstrip_def by blast
qed

lemma rstrip_last: "rstrip run \<noteq> [] \<Longrightarrow> alnum (last (rstrip run))"
proof -
  assume "rstrip run \<noteq> []"
  then have ne: "dropWhile (\<lambda>c. \<not> alnum c) (rev run) \<noteq> []"
    by (simp add: rstrip_def)
  then have "alnum (hd (dropWhile (\<lambda>c. \<not> alnum c) (rev run)))"
    using hd_dropWhile[of "\<lambda>c. \<not> alnum c" "rev run"] by simp
  then show ?thesis using ne by (simp add: rstrip_def last_rev)
qed

lemma token_split_skip:
  "\<not> alnum c \<Longrightarrow> token_split cs ts \<Longrightarrow> token_split (c # cs) ts"
proof (cases ts)
  case Nil
  assume "\<not> alnum c" "token_split cs ts"
  with Nil show ?thesis by simp
next
  case (Cons t ts')
  assume c: "\<not> alnum c" and "token_split cs ts"
  with Cons obtain gap rest where g: "cs = gap @ t @ rest"
      "list_all (\<lambda>c. \<not> alnum c) gap" "valid_token t"
      "list_all (\<lambda>c. c = CHR ''-'') (takeWhile tokch rest)" "token_split rest ts'"
    by auto
  have "c # cs = (c # gap) @ t @ rest" "list_all (\<lambda>c. \<not> alnum c) (c # gap)"
    using g c by simp_all
  with g Cons show ?thesis
    unfolding Cons token_split.simps by blast
qed

lemma token_split_spec_tokens: "token_split s (spec_tokens s)"
proof (induction s rule: spec_tokens.induct)
  case 1
  show ?case by (simp add: spec_tokens.simps)
next
  case (2 c cs)
  show ?case
  proof (cases "alnum c")
    case False
    then show ?thesis using 2 by (simp add: spec_tokens.simps(2) token_split_skip)
  next
    case True
    let ?run = "takeWhile tokch (c # cs)"
    let ?tok = "rstrip ?run"
    let ?rest = "drop (length ?tok) (c # cs)"
    obtain ys where ys: "?run = ?tok @ ys" "list_all (\<lambda>c. \<not> alnum c) ys"
      using rstrip_decomp by blast
    have whole: "c # cs = ?tok @ ys @ dropWhile tokch (c # cs)"
      using ys(1) by (metis append.assoc takeWhile_dropWhile_id)
    then have rest: "?rest = ys @ dropWhile tokch (c # cs)"
      by (metis append_eq_conv_conj)
    have run_tokch: "list_all tokch ?run"
      by (auto simp: list_all_iff dest: set_takeWhileD)
    then have ys_tokch: "list_all tokch ys" and tok_tokch: "list_all tokch ?tok"
      using ys(1) by (metis list_all_append)+
    have ys_hyph: "list_all (\<lambda>c. c = CHR ''-'') ys"
      using ys(2) ys_tokch by (auto simp: list_all_iff tokch_def)
    have "takeWhile tokch ?rest = ys"
    proof -
      have "takeWhile tokch (dropWhile tokch (c # cs)) = []"
        using hd_dropWhile[of tokch "c # cs"]
        by (cases "dropWhile tokch (c # cs)") auto
      then show ?thesis
        using ys_tokch unfolding rest by (simp add: takeWhile_append list_all_iff)
    qed
    then have ext: "list_all (\<lambda>c. c = CHR ''-'') (takeWhile tokch ?rest)"
      using ys_hyph by simp
    have tokc: "?tok = c # rstrip (takeWhile tokch cs)"
      using True by (simp add: tokch_def rstrip_Cons_alnum)
    then have ne: "?tok \<noteq> []" by (simp only: list.distinct not_False_eq_True)
    have "alnum (hd ?tok)" using True by (simp only: tokc list.sel)
    moreover have "alnum (last ?tok)" using rstrip_last[OF ne] .
    ultimately have valid: "valid_token ?tok"
      using ne tok_tokch by (simp only: valid_token_def simp_thms)
    have split: "c # cs = [] @ ?tok @ ?rest"
      using whole rest by simp
    have ih: "token_split ?rest (spec_tokens ?rest)"
      using "2.IH"(1)[OF True] .
    have "token_split (c # cs) (?tok # spec_tokens ?rest)"
      unfolding token_split.simps
      using split valid ext ih by (metis list.pred_inject(1))
    then show ?thesis using True by (simp only: spec_tokens.simps(2) if_True)
  qed
qed

text \<open>
  Claim C7. \<open>tokenize\<close> lowercases the whole input and returns, in order, the
  maximal runs of alphanumeric characters with internal hyphens: the regular
  expression of the source finds exactly the tokens of the scanner that the
  specification describes, and these split the lowercased text into gaps without
  alphanumeric characters and tokens that cannot be extended. Nothing is stemmed
  and no token is removed: the tokens are the pieces of the text between the gaps.
  The result is a function of the text alone. The text of the specification's
  example gives the three tokens it names.
\<close>

theorem tokenize_maximal_runs:
  "tokenize text = spec_tokens (lower text)
   \<and> token_split (lower text) (tokenize text)
   \<and> tokenize ''Error E-4012, retry!'' = [''error'', ''e-4012'', ''retry'']"
proof -
  have a: "tokenize text = spec_tokens (lower text)"
    by (simp only: tokenize_def findall_token_re)
  have b: "token_split (lower text) (tokenize text)"
    by (simp only: a token_split_spec_tokens)
  have c: "tokenize ''Error E-4012, retry!'' = [''error'', ''e-4012'', ''retry'']"
    by code_simp
  from a b c show ?thesis by blast
qed

section \<open>Proofs: sparse index\<close>


lemma mset_sorted_reverse: "mset (sorted_reverse f xs) = mset xs"
  by (simp add: sorted_reverse_def)

lemma length_sorted_reverse: "length (sorted_reverse f xs) = length xs"
  by (simp add: sorted_reverse_def)

lemma set_sorted_reverse: "set (sorted_reverse f xs) = set xs"
  by (simp add: sorted_reverse_def)

lemma sorted_reverse_descending:
  "sorted_wrt (\<lambda>x y. f y \<le> f x) (sorted_reverse f xs)"
proof -
  have "sorted (map f (sort_key f (rev xs)))"
    by (rule sorted_sort_key)
  then have "sorted_wrt (\<lambda>x y. f x \<le> f y) (sort_key f (rev xs))"
    by (simp add: sorted_map)
  then show ?thesis
    by (simp add: sorted_reverse_def sorted_wrt_rev)
qed

lemma sorted_reverse_stable:
  "filter (\<lambda>x. f x = k) (sorted_reverse f xs) = filter (\<lambda>x. f x = k) xs"
proof -
  have "filter (\<lambda>x. f x = k) (sorted_reverse f xs)
          = rev (filter (\<lambda>x. f x = k) (sort_key f (rev xs)))"
    by (simp add: sorted_reverse_def rev_filter)
  also have "\<dots> = rev (filter (\<lambda>x. f x = k) (rev xs))"
    by (simp only: sort_key_stable)
  also have "\<dots> = filter (\<lambda>x. f x = k) xs"
    by (simp add: rev_filter)
  finally show ?thesis .
qed

lemma sorted_reverse_constant:
  assumes "\<forall>x\<in>set xs. f x = k"
  shows "sorted_reverse f xs = xs"
proof -
  have "\<forall>x\<in>set (sorted_reverse f xs). f x = k"
    using assms by (simp add: set_sorted_reverse)
  then have "filter (\<lambda>x. f x = k) (sorted_reverse f xs) = sorted_reverse f xs"
    by (simp add: filter_id_conv)
  moreover have "filter (\<lambda>x. f x = k) xs = xs"
    using assms by (simp add: filter_id_conv)
  ultimately show ?thesis
    using sorted_reverse_stable[of f k xs] by simp
qed

lemma map_snd_enumerate_from: "map snd (enumerate_from n xs) = xs"
  by (induction xs arbitrary: n) simp_all

lemma length_enumerate_from: "length (enumerate_from n xs) = length xs"
  by (induction xs arbitrary: n) simp_all

lemma map_fst_enumerate_from:
  "map fst (enumerate_from n xs) = map (\<lambda>i. n + int i) [0..<length xs]"
proof (induction xs arbitrary: n)
  case Nil
  show ?case by simp
next
  case (Cons x xs)
  have "[0..<length (x # xs)] = 0 # map Suc [0..<length xs]"
    by (simp add: upt_conv_Cons map_Suc_upt del: upt_Suc)
  then show ?case
    by (simp add: Cons.IH[of "n + 1"] comp_def add.assoc del: upt_Suc)
qed

lemma ranks_from_one:
  "map fst (enumerate_from 1 xs) = map int [1..<Suc (length xs)]"
proof -
  have "map (\<lambda>i. 1 + int i) [0..<length xs] = map int (map Suc [0..<length xs])"
    by simp
  also have "\<dots> = map int [1..<Suc (length xs)]"
    by (simp only: map_Suc_upt One_nat_def)
  finally show ?thesis by (simp only: map_fst_enumerate_from)
qed

lemma slice_to_nonneg: "0 \<le> k \<Longrightarrow> slice_to k xs = take (nat k) xs"
  by (simp add: slice_to_def)

lemma slice_to_prefix: "\<exists>n. slice_to k xs = take n xs"
  by (auto simp: slice_to_def)

lemma get_scores_empty_query: "get_scores ix [] = map (\<lambda>doc. 0) (corpus ix)"
  by (simp add: get_scores_def)

lemma length_get_scores: "length (get_scores ix q) = length (corpus ix)"
  by (simp add: get_scores_def)

lemma BM25Index_fields:
  "doc_ids (BM25Index idf_of docs) = map a_doc_id docs"
  "documents (BM25Index idf_of docs) = docs"
  "length (corpus (BM25Index idf_of docs)) = length docs"
  by (simp_all add: BM25Index_def Let_def)

lemma search_pairs:
  "map (\<lambda>r. (doc_id r, score r)) (search ix query top_k) = slice_to top_k (scored ix query)"
proof -
  have "map (\<lambda>r. (doc_id r, score r)) (search ix query top_k)
          = map snd (enumerate_from 1 (slice_to top_k (scored ix query)))"
    by (simp add: search_def comp_def case_prod_beta)
  then show ?thesis by (simp only: map_snd_enumerate_from)
qed

lemma search_ranks:
  "map rank (search ix query top_k) = map int [1..<Suc (length (search ix query top_k))]"
proof -
  have "map rank (search ix query top_k)
          = map fst (enumerate_from 1 (slice_to top_k (scored ix query)))"
    by (simp add: search_def comp_def case_prod_beta)
  moreover have "length (search ix query top_k) = length (slice_to top_k (scored ix query))"
    by (simp add: search_def length_enumerate_from)
  ultimately show ?thesis by (simp only: ranks_from_one)
qed


lemma scored_pairs:
  "scored (BM25Index idf_of docs) query
     = sorted_reverse snd
         (zip (map a_doc_id docs) (get_scores (BM25Index idf_of docs) (tokenize query)))"
  by (simp add: scored_def BM25Index_fields)

lemma length_pairs:
  "length (zip (map a_doc_id docs) (get_scores (BM25Index idf_of docs) q)) = length docs"
  by (simp add: length_get_scores BM25Index_fields)

lemma map_fst_pairs:
  "map fst (zip (map a_doc_id docs) (get_scores (BM25Index idf_of docs) q)) = map a_doc_id docs"
  by (simp add: length_get_scores BM25Index_fields)

text \<open>
  Claim C1. For every corpus and query, \<open>search\<close> scores every document: the
  ranking is a permutation of the documents paired with their scores, whatever the
  scores are. The ranking is sorted by descending score, and the documents of equal
  score keep the order in which the corpus lists them. The output is the first
  \<open>top_k\<close> entries of the ranking, the whole ranking when \<open>top_k\<close> is at least the
  size of the corpus, and its ranks count from 1. When the tokenized query is empty,
  every score is zero and the ranking is the corpus order. (\<open>top_k\<close> is an integer in
  the source; a count of results is not negative.)
\<close>

theorem search_ranking:
  "(let ix = BM25Index idf_of docs;
        pairs = zip (map a_doc_id docs) (get_scores ix (tokenize query));
        ranking = scored ix query;
        out = search ix query top_k
    in length pairs = length docs
       \<and> map fst pairs = map a_doc_id docs
       \<and> mset ranking = mset pairs
       \<and> sorted_wrt (\<lambda>p q. snd q \<le> snd p) ranking
       \<and> (\<forall>s. filter (\<lambda>p. snd p = s) ranking = filter (\<lambda>p. snd p = s) pairs)
       \<and> (0 \<le> top_k \<longrightarrow>
            map (\<lambda>r. (doc_id r, score r)) out = take (nat top_k) ranking
            \<and> length out = min (nat top_k) (length docs))
       \<and> (int (length docs) \<le> top_k \<longrightarrow>
            map (\<lambda>r. (doc_id r, score r)) out = ranking)
       \<and> map rank out = map int [1..<Suc (length out)]
       \<and> (tokenize query = [] \<longrightarrow>
            list_all (\<lambda>p. snd p = 0) pairs
            \<and> ranking = pairs
            \<and> (0 \<le> top_k \<longrightarrow> map doc_id out = take (nat top_k) (map a_doc_id docs))))"
proof -
  let ?ix = "BM25Index idf_of docs"
  let ?pairs = "zip (map a_doc_id docs) (get_scores ?ix (tokenize query))"
  let ?ranking = "scored ?ix query"
  let ?out = "search ?ix query top_k"
  have rk: "?ranking = sorted_reverse snd ?pairs"
    by (rule scored_pairs)
  have c1: "length ?pairs = length docs" by (rule length_pairs)
  have c2: "map fst ?pairs = map a_doc_id docs" by (rule map_fst_pairs)
  have c3: "mset ?ranking = mset ?pairs"
    by (simp only: rk mset_sorted_reverse)
  have c4: "sorted_wrt (\<lambda>p q. snd q \<le> snd p) ?ranking"
    by (simp only: rk sorted_reverse_descending)
  have c5: "\<forall>s. filter (\<lambda>p. snd p = s) ?ranking = filter (\<lambda>p. snd p = s) ?pairs"
    by (simp only: rk sorted_reverse_stable) simp
  have len: "length ?ranking = length docs"
    by (simp only: rk length_sorted_reverse c1)
  have outp: "map (\<lambda>r. (doc_id r, score r)) ?out = slice_to top_k ?ranking"
    by (rule search_pairs)
  have c6: "0 \<le> top_k \<longrightarrow>
              map (\<lambda>r. (doc_id r, score r)) ?out = take (nat top_k) ?ranking
              \<and> length ?out = min (nat top_k) (length docs)"
  proof
    assume k: "0 \<le> top_k"
    have a: "map (\<lambda>r. (doc_id r, score r)) ?out = take (nat top_k) ?ranking"
      by (simp only: outp slice_to_nonneg[OF k])
    have "length ?out = length (map (\<lambda>r. (doc_id r, score r)) ?out)" by simp
    also have "\<dots> = min (nat top_k) (length docs)"
      by (simp only: a length_take len min.commute)
    finally show "map (\<lambda>r. (doc_id r, score r)) ?out = take (nat top_k) ?ranking
              \<and> length ?out = min (nat top_k) (length docs)"
      using a by blast
  qed
  have c7: "int (length docs) \<le> top_k \<longrightarrow> map (\<lambda>r. (doc_id r, score r)) ?out = ?ranking"
  proof
    assume k: "int (length docs) \<le> top_k"
    then have k0: "0 \<le> top_k" and "length ?ranking \<le> nat top_k"
      using len by linarith+
    then show "map (\<lambda>r. (doc_id r, score r)) ?out = ?ranking"
      by (simp only: outp slice_to_nonneg[OF k0] take_all)
  qed
  have c8: "map rank ?out = map int [1..<Suc (length ?out)]"
    by (rule search_ranks)
  have c9: "tokenize query = [] \<longrightarrow>
            list_all (\<lambda>p. snd p = 0) ?pairs
            \<and> ?ranking = ?pairs
            \<and> (0 \<le> top_k \<longrightarrow> map doc_id ?out = take (nat top_k) (map a_doc_id docs))"
  proof
    assume e: "tokenize query = []"
    have zero: "\<forall>p\<in>set ?pairs. snd p = 0"
      by (auto simp: e get_scores_empty_query dest!: set_zip_rightD)
    then have z1: "list_all (\<lambda>p. snd p = 0) ?pairs"
      by (simp only: list_all_iff)
    have z2: "?ranking = ?pairs"
      by (simp only: rk sorted_reverse_constant[OF zero])
    have z3: "0 \<le> top_k \<longrightarrow> map doc_id ?out = take (nat top_k) (map a_doc_id docs)"
    proof
      assume k: "0 \<le> top_k"
      have "map doc_id ?out = map fst (map (\<lambda>r. (doc_id r, score r)) ?out)"
        by (simp add: comp_def)
      also have "\<dots> = map fst (take (nat top_k) ?pairs)"
        by (simp only: outp slice_to_nonneg[OF k] z2)
      also have "\<dots> = take (nat top_k) (map a_doc_id docs)"
        by (simp only: take_map[symmetric] c2)
      finally show "map doc_id ?out = take (nat top_k) (map a_doc_id docs)" .
    qed
    from z1 z2 z3 show "list_all (\<lambda>p. snd p = 0) ?pairs
            \<and> ?ranking = ?pairs
            \<and> (0 \<le> top_k \<longrightarrow> map doc_id ?out = take (nat top_k) (map a_doc_id docs))"
      by blast
  qed
  from c1 c2 c3 c4 c5 c6 c7 c8 c9 show ?thesis
    unfolding Let_def by blast
qed

theorem search_ranking_witness:
  "(0::int) \<le> 1 \<and> int (length [example_doc_1, example_doc_2]) \<le> 2
   \<and> tokenize ''?!'' = []
   \<and> map doc_id (search (BM25Index (\<lambda>c q. 1) [example_doc_1, example_doc_2]) ''?!'' 1) = [''d1'']
   \<and> map doc_id (search (BM25Index (\<lambda>c q. 1) [example_doc_1, example_doc_2]) ''retry'' 2)
       = [''d2'', ''d1'']"
proof -
  have k: "(0::int) \<le> 1" by simp
  have n: "int (length [example_doc_1, example_doc_2]) \<le> 2" by simp
  have e: "tokenize ''?!'' = []" by code_simp
  have "map doc_id (search (BM25Index (\<lambda>c q. 1) [example_doc_1, example_doc_2]) ''?!'' 1)
          = take (nat 1) (map a_doc_id [example_doc_1, example_doc_2])"
    using search_ranking[of "\<lambda>c q. 1" "[example_doc_1, example_doc_2]" "''?!''" 1] k e
    unfolding Let_def by blast
  then have a: "map doc_id (search (BM25Index (\<lambda>c q. 1) [example_doc_1, example_doc_2]) ''?!'' 1)
          = [''d1'']"
    by (simp add: example_doc_1_def)
  have b: "map doc_id (search (BM25Index (\<lambda>c q. 1) [example_doc_1, example_doc_2]) ''retry'' 2)
       = [''d2'', ''d1'']"
    by code_simp
  from k n e a b show ?thesis by blast
qed


end
